theory Spec2Isabelle
  imports Complex_Main "HOL-Library.Sublist" "HOL-Library.Word"
begin

section \<open>The DAP4 URL rewrite\<close>

text \<open>
  The notebook \<^verbatim>\<open>3.pydap_dap4_basic\<close> builds the URL it hands to PyDAP with

  \<^verbatim>\<open>
  if dataset_url.find("https") == 0 :
      dap4_url=dataset_url.replace("https://","dap4://",1)
  else :
      dap4_url=dataset_url.replace("http://","dap4://",1)
  \<close>

  Python strings are modelled as \<^typ>\<open>string\<close>.  The two string methods the cell calls are
  embedded with Python's semantics: \<^verbatim>\<open>s.find(sub)\<close> is the lowest index at which
  \<^verbatim>\<open>sub\<close> occurs in \<^verbatim>\<open>s\<close>, or \<^verbatim>\<open>-1\<close>; \<^verbatim>\<open>s.replace(old, new, 1)\<close> scans from the left and
  replaces the leftmost occurrence of \<^verbatim>\<open>old\<close>, if there is one.
\<close>

fun str_find :: "string \<Rightarrow> string \<Rightarrow> int" where
  "str_find [] sub = (if sub = [] then 0 else - 1)"
| "str_find (c # cs) sub =
     (if prefix sub (c # cs) then 0
      else (let r = str_find cs sub in if r < 0 then - 1 else r + 1))"

fun str_replace1 :: "string \<Rightarrow> string \<Rightarrow> string \<Rightarrow> string" where
  "str_replace1 old new [] = (if old = [] then new else [])"
| "str_replace1 old new (c # cs) =
     (if prefix old (c # cs) then new @ drop (length old) (c # cs)
      else c # str_replace1 old new cs)"

definition dap4_url :: "string \<Rightarrow> string" where
  "dap4_url dataset_url =
     (if str_find dataset_url ''https'' = 0
      then str_replace1 ''https://'' ''dap4://'' dataset_url
      else str_replace1 ''http://'' ''dap4://'' dataset_url)"

text \<open>The scheme marker the cell looks for in a given URL.\<close>

definition scheme_of :: "string \<Rightarrow> string" where
  "scheme_of u = (if prefix ''https'' u then ''https://'' else ''http://'')"

text \<open>\<open>occurs_at pat s k\<close>: the string \<open>pat\<close> occurs in \<open>s\<close> starting at index \<open>k\<close>.\<close>

definition occurs_at :: "string \<Rightarrow> string \<Rightarrow> nat \<Rightarrow> bool" where
  "occurs_at pat s k = prefix pat (drop k s)"

text \<open>The two dataset URLs of the notebook.\<close>

definition nasa_url :: string where
  "nasa_url = ''dap4://opendap.earthdata.nasa.gov/collections/C2036877806-POCLOUD/granules/20220812010000-OSISAF-L3C_GHRSST-SSTsubskin-GOES16-ssteqc_goes16_20220812_010000-v02.0-fv01.0''"

definition test_url :: string where
  "test_url = ''dap4://test.opendap.org/opendap/tutorials/20220812010000-OSISAF-L3C_GHRSST-SSTsubskin-GOES16-ssteqc_goes16_20220812_010000-v02.0-fv01.0.nc''"

text \<open>The URL the notebook starts from: \<^verbatim>\<open>USE_ORIGINAL_SERVICE\<close> selects the NASA service or the test server.\<close>

definition dataset_url_of :: "bool \<Rightarrow> string" where
  "dataset_url_of use_original_service = (if use_original_service then nasa_url else test_url)"

section \<open>The sea-surface-temperature array\<close>

text \<open>
  A numpy array is its shape and its elements in row-major order; \<open>wf_array\<close> is numpy's
  invariant that the number of elements is the product of the shape.

  \<^item> \<open>squeeze\<close> is \<^verbatim>\<open>np.squeeze(a)\<close>: the axes of length one are removed, the elements stay.
  \<^item> \<open>getitem a [i, j, ...]\<close> is the element access \<^verbatim>\<open>a[i, j, ...]\<close> with one integer per
    axis; a negative index counts from the end, and \<open>None\<close> is Python's \<^verbatim>\<open>IndexError\<close>.
  \<^item> \<open>f32\<close> are the values of a \<^verbatim>\<open>float32\<close> element as far as comparison sees them: not a
    number, the two infinities, or a finite value.  \<open>f32_lt x c\<close> and \<open>f32_ge x c\<close> are
    \<^verbatim>\<open>x < c\<close> and \<^verbatim>\<open>x >= c\<close> against a finite scalar; both are false for NaN.
  \<^item> \<open>astype_float32\<close> is \<^verbatim>\<open>.astype(np.float32)\<close> on the 16-bit integers the server
    delivers; every 16-bit integer is a \<^verbatim>\<open>float32\<close> value, so the conversion is exact.
  \<^item> \<open>fill_mask\<close> is \<^verbatim>\<open>sst[sst < -32000] = np.nan\<close>: \<open>less_scalar\<close> builds the boolean
    array, \<open>setitem_mask\<close> assigns through it (numpy raises \<^verbatim>\<open>IndexError\<close> when the mask's
    shape differs from the array's).
\<close>

record 'a ndarray =
  shape :: "nat list"
  buf :: "'a list"

definition wf_array :: "'a ndarray \<Rightarrow> bool" where
  "wf_array a = (length (buf a) = prod_list (shape a))"

definition squeeze :: "'a ndarray \<Rightarrow> 'a ndarray" where
  "squeeze a = a\<lparr>shape := filter (\<lambda>d. d \<noteq> 1) (shape a)\<rparr>"

definition norm_index :: "nat \<Rightarrow> int \<Rightarrow> nat option" where
  "norm_index d i =
     (if 0 \<le> i \<and> i < int d then Some (nat i)
      else if - int d \<le> i \<and> i < 0 then Some (nat (i + int d))
      else None)"

fun offset :: "nat list \<Rightarrow> int list \<Rightarrow> nat \<Rightarrow> nat option" where
  "offset [] [] acc = Some acc"
| "offset (d # ds) (i # is) acc =
     (case norm_index d i of None \<Rightarrow> None | Some j \<Rightarrow> offset ds is (acc * d + j))"
| "offset ds is acc = None"

definition getitem :: "'a ndarray \<Rightarrow> int list \<Rightarrow> 'a option" where
  "getitem a idx =
     (case offset (shape a) idx 0 of
        None \<Rightarrow> None
      | Some k \<Rightarrow> if k < length (buf a) then Some (buf a ! k) else None)"

datatype f32 = NaN | NegInf | PosInf | Fin real

fun f32_lt :: "f32 \<Rightarrow> real \<Rightarrow> bool" where
  "f32_lt NaN c = False"
| "f32_lt NegInf c = True"
| "f32_lt PosInf c = False"
| "f32_lt (Fin x) c = (x < c)"

fun f32_ge :: "f32 \<Rightarrow> real \<Rightarrow> bool" where
  "f32_ge NaN c = False"
| "f32_ge NegInf c = False"
| "f32_ge PosInf c = True"
| "f32_ge (Fin x) c = (c \<le> x)"

definition astype_float32 :: "16 word ndarray \<Rightarrow> f32 ndarray" where
  "astype_float32 a = \<lparr>shape = shape a, buf = map (\<lambda>w. Fin (real_of_int (sint w))) (buf a)\<rparr>"

definition less_scalar :: "f32 ndarray \<Rightarrow> real \<Rightarrow> bool ndarray" where
  "less_scalar a c = \<lparr>shape = shape a, buf = map (\<lambda>x. f32_lt x c) (buf a)\<rparr>"

definition setitem_mask :: "'a ndarray \<Rightarrow> bool ndarray \<Rightarrow> 'a \<Rightarrow> 'a ndarray option" where
  "setitem_mask a m v =
     (if shape m = shape a \<and> length (buf m) = length (buf a)
      then Some (a\<lparr>buf := map2 (\<lambda>x b. if b then v else x) (buf a) (buf m)\<rparr>)
      else None)"

definition fill_mask :: "f32 ndarray \<Rightarrow> f32 ndarray option" where
  "fill_mask sst = setitem_mask sst (less_scalar sst (- 32000)) NaN"

definition sst_sample :: "16 word ndarray" where
  "sst_sample = \<lparr>shape = [1, 2, 2], buf = [- 32768, 1513, 1345, - 32768]\<rparr>"

section \<open>The notebooks as programs\<close>

text \<open>
  The repository holds two notebooks.  Their code cells are straight-line Python: each
  statement is a call into a library (\<^verbatim>\<open>earthaccess\<close>, \<^verbatim>\<open>pydap\<close>, \<^verbatim>\<open>numpy\<close>,
  \<^verbatim>\<open>matplotlib\<close>, \<^verbatim>\<open>cartopy\<close>, \<^verbatim>\<open>IPython\<close>), an import, an assignment, a \<^verbatim>\<open>print\<close>, or a
  shell line (\<^verbatim>\<open>!cmd\<close>).  An \<open>action\<close> names one such statement; the payload is the
  command, module, variable or callee as the source writes it.  A constructor call in
  an argument (\<^verbatim>\<open>ccrs.Mercator()\<close>, \<^verbatim>\<open>cfeature.COASTLINE.with_scale('50m')\<close>) belongs to
  the action of its statement.

  \<^item> \<open>Login\<close> is \<^verbatim>\<open>earthaccess.login(strategy="interactive", persist=True)\<close>;
  \<^item> \<open>OpenUrl\<close> is \<^verbatim>\<open>open_url(dap4_url)\<close>;
  \<^item> \<open>DataSlice v\<close> is \<^verbatim>\<open>pydap_ds.v.data[:]\<close>, \<open>ArraySlice\<close> is \<^verbatim>\<open>sst[:]\<close>;
  \<^item> \<open>Squeeze\<close>, \<open>AsType\<close>, \<open>FillMask\<close> and \<open>Scale\<close> are \<^verbatim>\<open>np.squeeze(sst)\<close>,
    \<^verbatim>\<open>.astype(np.float32)\<close>, \<^verbatim>\<open>sst[sst < -32000] = np.nan\<close> and
    \<^verbatim>\<open>sst * 0.01 + 273.14999999999998\<close>;
  \<^item> \<open>Inspect x\<close> reads an attribute of a remote object, \<open>Plot f\<close> calls the plotting
    function \<open>f\<close>, \<open>Display js\<close> is \<^verbatim>\<open>IPython.display.display(IPython.display.Javascript(js))\<close>;
  \<^item> \<open>FileWrite path\<close> stands for a Python statement that writes the file \<open>path\<close>.

  Python's statement forms are \<open>Do\<close> (perform an action) and \<open>Try body handler\<close>
  (\<^verbatim>\<open>try: body except: handler\<close>).  An action either returns or raises; which one is
  not decided by the notebook, so the interpreter takes it as a parameter: \<open>raises trace a\<close>
  is the error raised by \<open>a\<close> after the actions in \<open>trace\<close> have run, if any.  The interpreter
  returns the trace of the actions it attempted and the error that reached the caller.
  IPython does not raise when a shell line fails; the properties below hold for every
  \<open>raises\<close>, so also for those under which a shell line never raises.
\<close>

type_synonym error = string

datatype action =
    Shell string
  | Import string
  | Def string
  | Login
  | Display string
  | Assign string
  | Print string
  | OpenUrl
  | Inspect string
  | DataSlice string
  | Squeeze
  | ArraySlice
  | AsType
  | FillMask
  | Scale
  | Plot string
  | FileWrite string

datatype stmt = Do action | Try "stmt list" "stmt list"

type_synonym raiser = "action list \<Rightarrow> action \<Rightarrow> error option"

fun exec :: "raiser \<Rightarrow> stmt \<Rightarrow> action list \<Rightarrow> action list \<times> error option"
  and exec_block :: "raiser \<Rightarrow> stmt list \<Rightarrow> action list \<Rightarrow> action list \<times> error option" where
  "exec raises (Do a) trace = (trace @ [a], raises trace a)"
| "exec raises (Try body handler) trace =
     (case exec_block raises body trace of
        (trace', None) \<Rightarrow> (trace', None)
      | (trace', Some e) \<Rightarrow> exec_block raises handler trace')"
| "exec_block raises [] trace = (trace, None)"
| "exec_block raises (s # ss) trace =
     (case exec raises s trace of
        (trace', None) \<Rightarrow> exec_block raises ss trace'
      | (trace', Some e) \<Rightarrow> (trace', Some e))"

fun is_handler :: "stmt \<Rightarrow> bool" where
  "is_handler (Do a) = False"
| "is_handler (Try body handler) = True"

definition handler_free :: "stmt list \<Rightarrow> bool" where
  "handler_free p = list_all (\<lambda>s. \<not> is_handler s) p"

fun actions_of :: "stmt list \<Rightarrow> action list" where
  "actions_of [] = []"
| "actions_of (Do a # ss) = a # actions_of ss"
| "actions_of (Try body handler # ss) = actions_of body @ actions_of handler @ actions_of ss"

text \<open>
  \<open>run_all\<close> runs the cells of a notebook from top to bottom and stops at the first cell
  that raises.  \<open>window_open\<close> is the only function the repository defines:

  \<^verbatim>\<open>
  def window_open(url):
      IPython.display.display(IPython.display.Javascript('window.open("{url}");'.format(url=url)))
  \<close>

  \<open>login_notebook\<close> is \<^verbatim>\<open>0.NASA_EDL_Login\<close> (the user name read from \<^verbatim>\<open>auth.username\<close> is a
  parameter), \<open>pydap_notebook\<close> is \<^verbatim>\<open>3.pydap_dap4_basic\<close>, one list per code cell.
\<close>

definition run_all :: "raiser \<Rightarrow> stmt list list \<Rightarrow> action list \<times> error option" where
  "run_all raises cells = exec_block raises (concat cells) []"

definition window_open :: "string \<Rightarrow> stmt list" where
  "window_open url = [Do (Display (''window.open(\"'' @ url @ ''\");''))]"

definition login_notebook :: "string \<Rightarrow> stmt list list" where
  "login_notebook username =
    [ [Do (Import ''earthaccess''), Do Login],
      [Do (Shell ''./setup_dodsrc.sh'')],
      [Do (Import ''IPython''), Do (Def ''window_open'')],
      Do (Inspect ''auth.username'') #
        window_open (''https://urs.earthdata.nasa.gov/users/'' @ username @ ''/authorized_apps''),
      [] ]"

definition pydap_notebook :: "stmt list list" where
  "pydap_notebook =
    [ [Do (Shell ''git clone https://github.com/OPENDAP/NASA-tutorials.git''),
       Do (Shell ''pip3 install earthaccess pydap''),
       Do (Shell ''./NASA-tutorials/tutorials/setup_dodsrc.sh'')],
      [Do (Import ''requests''), Do (Import ''pydap.client''), Do (Import ''pydap.cas.urs''),
       Do (Import ''numpy''), Do (Import ''IPython.display'')],
      [Do (Import ''earthaccess''), Do Login],
      [Do (Assign ''USE_ORIGINAL_SERVICE''), Do (Assign ''dataset_url''), Do (Print ''dataset_url'')],
      [Do (Assign ''dap4_url''), Do (Print ''dap4_url'')],
      [Do OpenUrl, Do (Inspect ''pydap_ds._dict'')],
      [Do (Print ''pydap_ds'')],
      [Do (Print ''Domain Coordinates''),
       Do (Inspect ''pydap_ds.time.shape''), Do (Print ''time''),
       Do (Inspect ''pydap_ds.lat.shape''), Do (Print ''lat''),
       Do (Inspect ''pydap_ds.lon.shape''), Do (Print ''lon''),
       Do (Print ''Range Variables''),
       Do (Inspect ''pydap_ds.sea_surface_temperature.shape''), Do (Print ''sea_surface_temperature''),
       Do (Inspect ''pydap_ds.wind_speed.shape''), Do (Print ''wind_speed'')],
      [Do (DataSlice ''time''), Do (Print ''time'')],
      [Do (DataSlice ''lat''), Do (Print ''lat'')],
      [Do (DataSlice ''lon''), Do (Print ''lon''), Do (Print ''lon'')],
      [Do (DataSlice ''sea_surface_temperature''), Do (Print ''sst'')],
      [Do (Print ''Before Squeeze''), Do Squeeze, Do (Print ''After Squeeze''),
       Do ArraySlice, Do AsType, Do FillMask],
      [Do (Print ''sst''), Do (Inspect ''pydap_ds.sea_surface_temperature.attributes'')],
      [Do Scale, Do (Print ''scaled_sst'')],
      [Do (Import ''matplotlib.pyplot''), Do (Plot ''plt.pcolormesh'')],
      [Do (Shell ''pip3 install shapely==1.7.1''), Do (Shell ''pip3 install cartopy''),
       Do (Import ''cartopy.crs''), Do (Import ''cartopy.feature''), Do (Import ''matplotlib.pyplot''),
       Do (Plot ''plt.rcParams''), Do (Plot ''plt.figure''), Do (Plot ''fig.add_subplot''),
       Do (Plot ''ax.set_extent''), Do (Plot ''ax.add_feature''), Do (Plot ''ax.add_feature''),
       Do (Plot ''ax.add_feature''), Do (Plot ''ax.add_feature''), Do (Plot ''ax.gridlines''),
       Do (Plot ''ax.pcolormesh''), Do (Plot ''plt.colorbar''), Do (Plot ''cb.set_label''),
       Do (Plot ''ax.set_title''), Do (Plot ''plt.show'')] ]"

text \<open>
  The five steps of the walkthrough, numbered in the order the specification gives them:
  login 0, opening the dataset 1, slicing 2, scaling 3, plotting 4.  \<open>stages\<close> keeps, of a
  trace, the step numbers of the actions that belong to one of the five.
\<close>

fun stage_of :: "action \<Rightarrow> nat option" where
  "stage_of Login = Some 0"
| "stage_of OpenUrl = Some 1"
| "stage_of (DataSlice v) = Some 2"
| "stage_of ArraySlice = Some 2"
| "stage_of Scale = Some 3"
| "stage_of (Plot f) = Some 4"
| "stage_of a = None"

fun stages :: "action list \<Rightarrow> nat list" where
  "stages [] = []"
| "stages (a # as) = (case stage_of a of None \<Rightarrow> stages as | Some n \<Rightarrow> n # stages as)"

section \<open>The configuration file\<close>

text \<open>
  A file system maps a path to the lines of the file stored there.  Both notebooks set up
  \<^verbatim>\<open>~/.dodsrc\<close> with a shell line, \<^verbatim>\<open>!./setup_dodsrc.sh\<close> and
  \<^verbatim>\<open>! ./NASA-tutorials/tutorials/setup_dodsrc.sh\<close>.
\<close>

type_synonym filesystem = "string \<rightharpoonup> string list"

definition dodsrc_path :: "string \<Rightarrow> string" where
  "dodsrc_path home = home @ ''/.dodsrc''"

definition netrc_line :: "string \<Rightarrow> string" where
  "netrc_line home = ''HTTP.NETRC='' @ home @ ''/.netrc''"

definition has_netrc :: "string list \<Rightarrow> bool" where
  "has_netrc ls = list_ex (prefix ''HTTP.NETRC'') ls"

text \<open>
  Modelled from the spec: the shell script \<^verbatim>\<open>setup_dodsrc.sh\<close> is not among the sources.
  The specification calls it "shell-script generation of a dotfile"; the notebook says it
  automates putting the line \<^verbatim>\<open>HTTP.NETRC=<home>/.netrc\<close> into \<^verbatim>\<open>~/.dodsrc\<close>, "making
  and/or editing \<^verbatim>\<open>~/.dodsrc\<close> only if needed", and its recorded output is "Found an existing
  \<^verbatim>\<open>~/.dodsrc\<close> file... and it has HTTP.NETRC set / The \<^verbatim>\<open>~/.dodsrc\<close> file was not modified".
\<close>

definition setup_dodsrc :: "string \<Rightarrow> filesystem \<Rightarrow> filesystem" where
  "setup_dodsrc home fs =
     (case fs (dodsrc_path home) of
        None \<Rightarrow> fs(dodsrc_path home \<mapsto> [netrc_line home])
      | Some ls \<Rightarrow>
          if has_netrc ls then fs
          else fs(dodsrc_path home \<mapsto> ls @ [netrc_line home]))"



section \<open>Facts about the string methods\<close>

lemma str_find_lower: "- 1 \<le> str_find s sub"
  by (induction s) (auto simp: Let_def)

lemma str_find_zero_iff: "str_find s sub = 0 \<longleftrightarrow> prefix sub s"
proof (cases s)
  case Nil
  then show ?thesis by simp
next
  case (Cons c cs)
  have "- 1 \<le> str_find cs sub" by (rule str_find_lower)
  with Cons show ?thesis by (auto simp: Let_def)
qed

lemma str_replace1_absent:
  "\<forall>k\<le>length s. \<not> occurs_at old s k \<Longrightarrow> str_replace1 old new s = s"
proof (induction s)
  case Nil
  from Nil have "\<not> occurs_at old [] 0" by blast
  then show ?case by (simp add: occurs_at_def)
next
  case (Cons c cs)
  from Cons.prems have h0: "\<not> prefix old (c # cs)"
    unfolding occurs_at_def by (metis drop0 le0)
  have "\<forall>k\<le>length cs. \<not> occurs_at old cs k"
  proof (intro allI impI)
    fix k assume "k \<le> length cs"
    then have "Suc k \<le> length (c # cs)" by simp
    with Cons.prems have "\<not> occurs_at old (c # cs) (Suc k)" by blast
    then show "\<not> occurs_at old cs k" by (simp add: occurs_at_def)
  qed
  with Cons.IH have "str_replace1 old new cs = cs" by blast
  with h0 show ?case by simp
qed

lemma str_replace1_first:
  "\<forall>k<length p. \<not> occurs_at old (p @ old @ s) k \<Longrightarrow>
     str_replace1 old new (p @ old @ s) = p @ new @ s"
proof (induction p)
  case Nil
  show ?case
  proof (cases "old @ s")
    case Nil
    then show ?thesis by simp
  next
    case (Cons c cs)
    have "prefix old (old @ s)" by simp
    then have "str_replace1 old new (old @ s) = new @ drop (length old) (old @ s)"
      unfolding Cons by simp
    then show ?thesis by simp
  qed
next
  case (Cons c p)
  from Cons.prems have "\<not> occurs_at old ((c # p) @ old @ s) 0" by auto
  then have h0: "\<not> prefix old (c # p @ old @ s)" by (simp add: occurs_at_def)
  have "\<forall>k<length p. \<not> occurs_at old (p @ old @ s) k"
  proof (intro allI impI)
    fix k assume "k < length p"
    then have "Suc k < length (c # p)" by simp
    with Cons.prems have "\<not> occurs_at old ((c # p) @ old @ s) (Suc k)" by blast
    then show "\<not> occurs_at old (p @ old @ s) k" by (simp add: occurs_at_def)
  qed
  with Cons.IH have "str_replace1 old new (p @ old @ s) = p @ new @ s" by blast
  with h0 show ?case by simp
qed

text \<open>An occurrence anywhere gives a leftmost one, with the string split around it.\<close>

lemma leftmost_occurrence:
  assumes "occurs_at pat s k"
  shows "\<exists>p t. s = p @ pat @ t \<and> (\<forall>j<length p. \<not> occurs_at pat s j)"
proof -
  define m where "m = (LEAST j. occurs_at pat s j)"
  have occ: "occurs_at pat s m"
    unfolding m_def using assms by (rule LeastI)
  have least: "\<forall>j<m. \<not> occurs_at pat s j"
    unfolding m_def using not_less_Least by blast
  from occ obtain t where t: "drop m s = pat @ t"
    unfolding occurs_at_def prefix_def by blast
  show ?thesis
  proof (cases "m \<le> length s")
    case True
    have "s = take m s @ pat @ t" using t by (metis append_take_drop_id)
    moreover have "length (take m s) = m" using True by simp
    ultimately show ?thesis using least by metis
  next
    case False
    then have "drop m s = []" by simp
    with t have "pat = []" by simp
    then have "occurs_at pat s 0" by (simp add: occurs_at_def)
    with least False have False by (metis gr0I le0)
    then show ?thesis ..
  qed
qed

lemma str_replace1_fixed_iff:
  assumes "old \<noteq> new"
  shows "str_replace1 old new s = s \<longleftrightarrow> (\<forall>k\<le>length s. \<not> occurs_at old s k)"
proof
  assume fp: "str_replace1 old new s = s"
  show "\<forall>k\<le>length s. \<not> occurs_at old s k"
  proof (intro allI impI notI)
    fix k assume "occurs_at old s k"
    then obtain p t where s: "s = p @ old @ t"
      and first: "\<forall>j<length p. \<not> occurs_at old s j"
      using leftmost_occurrence by blast
    from first have "str_replace1 old new (p @ old @ t) = p @ new @ t"
      unfolding s by (rule str_replace1_first)
    with fp s have "p @ new @ t = p @ old @ t" by simp
    with assms show False by simp
  qed
next
  assume "\<forall>k\<le>length s. \<not> occurs_at old s k"
  then show "str_replace1 old new s = s" by (rule str_replace1_absent)
qed

lemma dap4_url_scheme:
  "dap4_url u = str_replace1 (scheme_of u) ''dap4://'' u"
  by (simp add: dap4_url_def scheme_of_def str_find_zero_iff)

lemma occurs_at_Cons_all:
  "(\<forall>k\<le>length (c # cs). \<not> occurs_at pat (c # cs) k) \<longleftrightarrow>
   \<not> prefix pat (c # cs) \<and> (\<forall>k\<le>length cs. \<not> occurs_at pat cs k)"
proof
  assume a: "\<forall>k\<le>length (c # cs). \<not> occurs_at pat (c # cs) k"
  then have "\<not> occurs_at pat (c # cs) 0" by blast
  then have h0: "\<not> prefix pat (c # cs)" by (simp add: occurs_at_def)
  have "\<forall>k\<le>length cs. \<not> occurs_at pat cs k"
  proof (intro allI impI)
    fix k assume "k \<le> length cs"
    then have "Suc k \<le> length (c # cs)" by simp
    with a have "\<not> occurs_at pat (c # cs) (Suc k)" by blast
    then show "\<not> occurs_at pat cs k" by (simp add: occurs_at_def)
  qed
  with h0 show "\<not> prefix pat (c # cs) \<and> (\<forall>k\<le>length cs. \<not> occurs_at pat cs k)" ..
next
  assume b: "\<not> prefix pat (c # cs) \<and> (\<forall>k\<le>length cs. \<not> occurs_at pat cs k)"
  show "\<forall>k\<le>length (c # cs). \<not> occurs_at pat (c # cs) k"
  proof (intro allI impI)
    fix k assume k: "k \<le> length (c # cs)"
    show "\<not> occurs_at pat (c # cs) k"
    proof (cases k)
      case 0
      with b show ?thesis by (simp add: occurs_at_def)
    next
      case (Suc j)
      with k have "j \<le> length cs" by simp
      with b have "\<not> occurs_at pat cs j" by blast
      with Suc show ?thesis by (simp add: occurs_at_def)
    qed
  qed
qed

lemma str_find_absent_iff:
  "str_find s pat = - 1 \<longleftrightarrow> (\<forall>k\<le>length s. \<not> occurs_at pat s k)"
proof (induction s)
  case Nil
  show ?case by (simp add: occurs_at_def)
next
  case (Cons c cs)
  have lb: "- 1 \<le> str_find cs pat" by (rule str_find_lower)
  have "str_find (c # cs) pat = - 1 \<longleftrightarrow> \<not> prefix pat (c # cs) \<and> str_find cs pat = - 1"
    using lb by (auto simp: Let_def)
  with Cons.IH show ?case unfolding occurs_at_Cons_all by simp
qed

lemma dap4_url_dataset: "dap4_url (dataset_url_of b) = dataset_url_of b"
  by (simp add: dap4_url_def dataset_url_of_def nasa_url_def test_url_def)

section \<open>Facts about the arrays\<close>

lemma fill_mask_Some:
  "fill_mask a = Some (a\<lparr>buf := map (\<lambda>x. if f32_lt x (- 32000) then NaN else x) (buf a)\<rparr>)"
proof -
  have "map2 (\<lambda>x b. if b then NaN else x) (buf a) (map (\<lambda>x. f32_lt x (- 32000)) (buf a))
      = map (\<lambda>x. if f32_lt x (- 32000) then NaN else x) (buf a)"
    by (induction "buf a") (simp_all add: zip_map2 map_zip_map2 zip_same_conv_map)
  then show ?thesis by (simp add: fill_mask_def setitem_mask_def less_scalar_def)
qed

lemma f32_total: "x = NaN \<or> f32_lt x c \<or> f32_ge x c"
  by (cases x) auto

lemma offset_squeezed:
  "offset [Suc 0, n, m] [0, i, j] 0 = offset [n, m] [i, j] 0"
  by (simp add: norm_index_def)

section \<open>Facts about running a notebook\<close>

lemma stages_append: "stages (xs @ ys) = stages xs @ stages ys"
  by (induction xs) (auto split: option.splits)

lemma handler_free_Cons:
  "handler_free (s # ss) \<longleftrightarrow> (\<exists>a. s = Do a) \<and> handler_free ss"
  by (cases s) (simp_all add: handler_free_def)


lemma exec_block_ok:
  "handler_free p \<Longrightarrow>
   \<forall>i<length (actions_of p). raises (trace @ take i (actions_of p)) (actions_of p ! i) = None \<Longrightarrow>
   exec_block raises p trace = (trace @ actions_of p, None)"
proof (induction p arbitrary: trace)
  case Nil
  then show ?case by simp
next
  case (Cons s ss)
  from Cons.prems(1) obtain a where s: "s = Do a" and hf: "handler_free ss"
    unfolding handler_free_Cons by blast
  from Cons.prems(2) have "raises (trace @ take 0 (actions_of (s # ss))) (actions_of (s # ss) ! 0) = None"
    using s by (metis actions_of.simps(2) length_greater_0_conv list.distinct(1))
  then have first: "raises trace a = None" using s by simp
  have rest: "\<forall>i<length (actions_of ss). raises ((trace @ [a]) @ take i (actions_of ss)) (actions_of ss ! i) = None"
  proof (intro allI impI)
    fix i assume "i < length (actions_of ss)"
    then have "Suc i < length (actions_of (s # ss))" using s by simp
    with Cons.prems(2)
    have "raises (trace @ take (Suc i) (actions_of (s # ss))) (actions_of (s # ss) ! Suc i) = None"
      by blast
    then show "raises ((trace @ [a]) @ take i (actions_of ss)) (actions_of ss ! i) = None"
      using s by simp
  qed
  from Cons.IH [OF hf rest] first s show ?case by simp
qed

lemma exec_block_log:
  "handler_free p \<Longrightarrow> \<exists>rest. trace @ actions_of p = fst (exec_block raises p trace) @ rest"
proof (induction p arbitrary: trace)
  case Nil
  then show ?case by simp
next
  case (Cons s ss)
  from Cons.prems obtain a where s: "s = Do a" and hf: "handler_free ss"
    unfolding handler_free_Cons by blast
  show ?case
  proof (cases "raises trace a")
    case None
    from Cons.IH [OF hf, of "trace @ [a]"] None s show ?thesis by simp
  next
    case (Some e)
    with s show ?thesis by simp
  qed
qed

lemma login_handler_free: "handler_free (concat (login_notebook u))"
  by (simp add: login_notebook_def window_open_def handler_free_def)

lemma pydap_handler_free: "handler_free (concat pydap_notebook)"
  by (simp add: pydap_notebook_def handler_free_def)

lemma login_actions:
  "actions_of (concat (login_notebook u)) =
     [Import ''earthaccess'', Login, Shell ''./setup_dodsrc.sh'', Import ''IPython'',
      Def ''window_open'', Inspect ''auth.username'',
      Display (''window.open(\"'' @ (''https://urs.earthdata.nasa.gov/users/'' @ u @ ''/authorized_apps'') @ ''\");'')]"
  by (simp add: login_notebook_def window_open_def)

lemma pydap_stages:
  "stages (actions_of (concat pydap_notebook))
     = [0, 1, 2, 2, 2, 2, 2, 3, 4, 4, 4, 4, 4, 4, 4, 4, 4, 4, 4, 4, 4, 4, 4]"
  by (simp add: pydap_notebook_def)

lemma pydap_stages_sorted: "sorted (stages (actions_of (concat pydap_notebook)))"
  unfolding pydap_stages by simp

lemma login_stages_sorted: "sorted (stages (actions_of (concat (login_notebook u))))"
  by (simp add: login_actions)


section \<open>Properties of the URL rewrite\<close>

text \<open>
  C1: the URL-construction step rewrites the scheme to \<^verbatim>\<open>dap4\<close>.  The test
  \<^verbatim>\<open>find("https") == 0\<close> holds exactly for the URLs that begin with \<^verbatim>\<open>https\<close>; it selects
  the marker \<^verbatim>\<open>https://\<close> for them and \<^verbatim>\<open>http://\<close> for all others.  A URL without the
  selected marker is returned as it is; otherwise the leftmost occurrence of the marker,
  and only that one, becomes \<^verbatim>\<open>dap4://\<close>, and what stands before and after it is kept.
\<close>

theorem dap4_url_rewrites_scheme:
  "(str_find u ''https'' = 0 \<longleftrightarrow> prefix ''https'' u) \<and>
   ((\<forall>k\<le>length u. \<not> occurs_at (scheme_of u) u k) \<longrightarrow> dap4_url u = u) \<and>
   (\<forall>p s. u = p @ scheme_of u @ s \<and> (\<forall>k<length p. \<not> occurs_at (scheme_of u) u k)
      \<longrightarrow> dap4_url u = p @ ''dap4://'' @ s)"
proof (intro conjI allI impI)
  show "str_find u ''https'' = 0 \<longleftrightarrow> prefix ''https'' u" by (rule str_find_zero_iff)
next
  assume "\<forall>k\<le>length u. \<not> occurs_at (scheme_of u) u k"
  then show "dap4_url u = u" unfolding dap4_url_scheme by (rule str_replace1_absent)
next
  fix p s
  assume h: "u = p @ scheme_of u @ s \<and> (\<forall>k<length p. \<not> occurs_at (scheme_of u) u k)"
  define pat where "pat = scheme_of u"
  from h have u: "u = p @ pat @ s" and first: "\<forall>k<length p. \<not> occurs_at pat (p @ pat @ s) k"
    unfolding pat_def by auto
  have "str_replace1 pat ''dap4://'' (p @ pat @ s) = p @ ''dap4://'' @ s"
    using first by (rule str_replace1_first)
  then show "dap4_url u = p @ ''dap4://'' @ s"
    unfolding dap4_url_scheme pat_def[symmetric] using u by simp
qed

theorem dap4_url_rewrites_scheme_witness:
  "dap4_url ''https://h/http://x'' = ''dap4://h/http://x'' \<and>
   dap4_url ''ftp://h/http://x/http://y'' = ''ftp://h/dap4://x/http://y'' \<and>
   dap4_url ''httpsx'' = ''httpsx''"
proof -
  have a1: "''https://h/http://x'' = [] @ scheme_of ''https://h/http://x'' @ ''h/http://x'' \<and>
     (\<forall>k<length ([]::string).
        \<not> occurs_at (scheme_of ''https://h/http://x'') ''https://h/http://x'' k)"
    by (simp add: scheme_of_def)
  have a2: "''ftp://h/http://x/http://y''
       = ''ftp://h/'' @ scheme_of ''ftp://h/http://x/http://y'' @ ''x/http://y'' \<and>
     (\<forall>k<length ''ftp://h/''.
        \<not> occurs_at (scheme_of ''ftp://h/http://x/http://y'') ''ftp://h/http://x/http://y'' k)"
  proof
    show "''ftp://h/http://x/http://y''
       = ''ftp://h/'' @ scheme_of ''ftp://h/http://x/http://y'' @ ''x/http://y''"
      by (simp add: scheme_of_def)
    have "str_find ''ftp://h/http:/'' ''http://'' = - 1" by simp
    then have no: "\<forall>k\<le>length ''ftp://h/http:/''. \<not> occurs_at ''http://'' ''ftp://h/http:/'' k"
      unfolding str_find_absent_iff .
    show "\<forall>k<length ''ftp://h/''.
        \<not> occurs_at (scheme_of ''ftp://h/http://x/http://y'') ''ftp://h/http://x/http://y'' k"
    proof (intro allI impI notI)
      fix k assume k: "k < length ''ftp://h/''"
        and occ: "occurs_at (scheme_of ''ftp://h/http://x/http://y'') ''ftp://h/http://x/http://y'' k"
      from occ have "prefix ''http://'' (drop k (''ftp://h/http:/'' @ ''/x/http://y''))"
        by (simp add: occurs_at_def scheme_of_def)
      with k have "prefix ''http://'' (drop k ''ftp://h/http:/'')"
        by (auto simp: less_Suc_eq numeral_eq_Suc)
      with k no show False by (simp add: occurs_at_def)
    qed
  qed
  have "str_find ''httpsx'' (scheme_of ''httpsx'') = - 1" by (simp add: scheme_of_def)
  then have a3: "\<forall>k\<le>length ''httpsx''. \<not> occurs_at (scheme_of ''httpsx'') ''httpsx'' k"
    unfolding str_find_absent_iff .
  have r1: "dap4_url ''https://h/http://x'' = [] @ ''dap4://'' @ ''h/http://x''"
    using dap4_url_rewrites_scheme [of "''https://h/http://x''"] a1 by blast
  have r2: "dap4_url ''ftp://h/http://x/http://y'' = ''ftp://h/'' @ ''dap4://'' @ ''x/http://y''"
    using dap4_url_rewrites_scheme [of "''ftp://h/http://x/http://y''"] a2 by blast
  have r3: "dap4_url ''httpsx'' = ''httpsx''"
    using dap4_url_rewrites_scheme [of "''httpsx''"] a3 by blast
  from r1 r2 r3 show ?thesis by simp
qed

text \<open>
  C7, as stated: applying the step to its own output returns that output unchanged.
  This fails for a URL that carries a second marker: the first pass rewrites the leading
  \<^verbatim>\<open>http://\<close>, the second pass rewrites the one behind it.
\<close>

theorem dap4_url_not_idempotent:
  "dap4_url (dap4_url ''http://http://x'') \<noteq> dap4_url ''http://http://x''"
  by (simp add: dap4_url_def)

text \<open>
  C7, amended: applying the step to its own output returns that output unchanged exactly
  when the output holds no occurrence of the marker the step selects for it; in
  particular a URL that begins with \<^verbatim>\<open>dap4://\<close> and has no \<^verbatim>\<open>http://\<close> in it is returned
  exactly as given.
\<close>

theorem dap4_url_fixed_point:
  "(dap4_url (dap4_url u) = dap4_url u \<longleftrightarrow>
      (\<forall>k\<le>length (dap4_url u). \<not> occurs_at (scheme_of (dap4_url u)) (dap4_url u) k)) \<and>
   (prefix ''dap4://'' v \<and> (\<forall>k\<le>length v. \<not> occurs_at ''http://'' v k) \<longrightarrow> dap4_url v = v)"
proof (intro conjI impI)
  have ne: "scheme_of (dap4_url u) \<noteq> ''dap4://''" by (simp add: scheme_of_def)
  show "dap4_url (dap4_url u) = dap4_url u \<longleftrightarrow>
      (\<forall>k\<le>length (dap4_url u). \<not> occurs_at (scheme_of (dap4_url u)) (dap4_url u) k)"
    unfolding dap4_url_scheme [of "dap4_url u"] using ne by (rule str_replace1_fixed_iff)
next
  assume h: "prefix ''dap4://'' v \<and> (\<forall>k\<le>length v. \<not> occurs_at ''http://'' v k)"
  then obtain t where "v = ''dap4://'' @ t" unfolding prefix_def by blast
  then have "\<not> prefix ''https'' v" by simp
  then have "scheme_of v = ''http://''" by (simp add: scheme_of_def)
  with h show "dap4_url v = v" unfolding dap4_url_scheme by (simp add: str_replace1_absent)
qed

theorem dap4_url_fixed_point_witness:
  "dap4_url (dap4_url ''https://h/x'') = dap4_url ''https://h/x'' \<and>
   prefix ''dap4://'' nasa_url \<and> str_find nasa_url ''http://'' = - 1 \<and>
   dap4_url nasa_url = nasa_url"
proof -
  have out: "dap4_url ''https://h/x'' = ''dap4://h/x''" by (simp add: dap4_url_def)
  have "str_find ''dap4://h/x'' (scheme_of ''dap4://h/x'') = - 1" by (simp add: scheme_of_def)
  then have h1: "\<forall>k\<le>length (dap4_url ''https://h/x'').
      \<not> occurs_at (scheme_of (dap4_url ''https://h/x'')) (dap4_url ''https://h/x'') k"
    unfolding out str_find_absent_iff .
  have h2: "prefix ''dap4://'' nasa_url" by (simp add: nasa_url_def)
  have nf: "str_find nasa_url ''http://'' = - 1" by (simp add: nasa_url_def)
  then have h3: "\<forall>k\<le>length nasa_url. \<not> occurs_at ''http://'' nasa_url k"
    unfolding str_find_absent_iff .
  from h1 h2 h3 nf dap4_url_fixed_point [of "''https://h/x''" nasa_url]
  show ?thesis by blast
qed

section \<open>Properties of the array steps\<close>

text \<open>
  C8: after \<^verbatim>\<open>sst[sst < -32000] = np.nan\<close> every element that was below \<open>-32000\<close>, the
  fill value \<open>-32768\<close> among them, is NaN; every element that was at least \<open>-32000\<close> is
  unchanged; the shape and the number of elements are unchanged; and every element of the
  result that is not NaN is at least \<open>-32000\<close>.
\<close>

theorem fill_mask_spec:
  "\<exists>m. fill_mask a = Some m \<and> shape m = shape a \<and> length (buf m) = length (buf a) \<and>
     (\<forall>k<length (buf a).
        (f32_lt (buf a ! k) (- 32000) \<longrightarrow> buf m ! k = NaN) \<and>
        (buf a ! k = Fin (- 32768) \<longrightarrow> buf m ! k = NaN) \<and>
        (f32_ge (buf a ! k) (- 32000) \<longrightarrow> buf m ! k = buf a ! k) \<and>
        (buf m ! k \<noteq> NaN \<longrightarrow> f32_ge (buf m ! k) (- 32000)))"
proof -
  define m where "m = a\<lparr>buf := map (\<lambda>x. if f32_lt x (- 32000) then NaN else x) (buf a)\<rparr>"
  have "fill_mask a = Some m" unfolding m_def by (rule fill_mask_Some)
  moreover have "shape m = shape a" "length (buf m) = length (buf a)" by (simp_all add: m_def)
  moreover have "\<forall>k<length (buf a).
        (f32_lt (buf a ! k) (- 32000) \<longrightarrow> buf m ! k = NaN) \<and>
        (buf a ! k = Fin (- 32768) \<longrightarrow> buf m ! k = NaN) \<and>
        (f32_ge (buf a ! k) (- 32000) \<longrightarrow> buf m ! k = buf a ! k) \<and>
        (buf m ! k \<noteq> NaN \<longrightarrow> f32_ge (buf m ! k) (- 32000))"
  proof (intro allI impI)
    fix k assume k: "k < length (buf a)"
    then have mk: "buf m ! k = (if f32_lt (buf a ! k) (- 32000) then NaN else buf a ! k)"
      by (simp add: m_def)
    show "(f32_lt (buf a ! k) (- 32000) \<longrightarrow> buf m ! k = NaN) \<and>
        (buf a ! k = Fin (- 32768) \<longrightarrow> buf m ! k = NaN) \<and>
        (f32_ge (buf a ! k) (- 32000) \<longrightarrow> buf m ! k = buf a ! k) \<and>
        (buf m ! k \<noteq> NaN \<longrightarrow> f32_ge (buf m ! k) (- 32000))"
      unfolding mk by (cases "buf a ! k") auto
  qed
  ultimately show ?thesis by blast
qed

theorem fill_mask_spec_witness:
  "\<exists>m. fill_mask (astype_float32 (squeeze sst_sample)) = Some m \<and>
       buf m ! 0 = NaN \<and> buf m ! 1 = Fin 1513 \<and> f32_ge (buf m ! 1) (- 32000)"
proof -
  define a where "a = astype_float32 (squeeze sst_sample)"
  have b: "buf a = [Fin (- 32768), Fin 1513, Fin 1345, Fin (- 32768)]"
    by (simp add: a_def astype_float32_def squeeze_def sst_sample_def)
  have h0: "0 < length (buf a) \<and> f32_lt (buf a ! 0) (- 32000)" by (simp add: b)
  have h1: "1 < length (buf a) \<and> f32_ge (buf a ! 1) (- 32000) \<and> buf a ! 1 = Fin 1513"
    by (simp add: b)
  from fill_mask_spec [of a] obtain m where m: "fill_mask a = Some m"
    and all: "\<forall>k<length (buf a).
        (f32_lt (buf a ! k) (- 32000) \<longrightarrow> buf m ! k = NaN) \<and>
        (buf a ! k = Fin (- 32768) \<longrightarrow> buf m ! k = NaN) \<and>
        (f32_ge (buf a ! k) (- 32000) \<longrightarrow> buf m ! k = buf a ! k) \<and>
        (buf m ! k \<noteq> NaN \<longrightarrow> f32_ge (buf m ! k) (- 32000))"
    by blast
  from all h0 have m0: "buf m ! 0 = NaN" by blast
  from all h1 have m1: "buf m ! 1 = Fin 1513" by metis
  from m1 all h1 have "f32_ge (buf m ! 1) (- 32000)" by (metis f32.distinct(5))
  with m m0 m1 show ?thesis unfolding a_def by blast
qed

text \<open>
  C9: squeezing an array of shape \<open>(1, 2400, 2400)\<close> gives an array of shape
  \<open>(2400, 2400)\<close> whose element at \<open>[i][j]\<close> is the original element at \<open>[0][i][j]\<close>, for
  all indices (an index out of range is an error on both sides, an index in range names
  an element); the elements and their number are unchanged.
\<close>

theorem squeeze_sst_shape:
  assumes "shape a = [1, 2400, 2400]" and "wf_array a"
  shows "shape (squeeze a) = [2400, 2400] \<and>
         (\<forall>i j. getitem (squeeze a) [i, j] = getitem a [0, i, j]) \<and>
         (\<forall>i j. 0 \<le> i \<and> i < 2400 \<and> 0 \<le> j \<and> j < 2400 \<longrightarrow>
              getitem (squeeze a) [i, j] = Some (buf a ! (nat i * 2400 + nat j))) \<and>
         buf (squeeze a) = buf a \<and>
         prod_list (shape (squeeze a)) = prod_list (shape a)"
proof (intro conjI allI impI)
  show sh: "shape (squeeze a) = [2400, 2400]" using assms(1) by (simp add: squeeze_def)
  show bf: "buf (squeeze a) = buf a" by (simp add: squeeze_def)
  show "prod_list (shape (squeeze a)) = prod_list (shape a)" using sh assms(1) by simp
  show "getitem (squeeze a) [i, j] = getitem a [0, i, j]" for i j
    unfolding getitem_def sh bf assms(1) by (simp add: norm_index_def)
  show "getitem (squeeze a) [i, j] = Some (buf a ! (nat i * 2400 + nat j))"
    if h: "0 \<le> i \<and> i < 2400 \<and> 0 \<le> j \<and> j < 2400" for i j
  proof -
    have len: "length (buf a) = 2400 * 2400" using assms by (simp add: wf_array_def)
    from h have "nat i < 2400" "nat j < 2400" by auto
    then have "nat i * 2400 + nat j < 2400 * 2400" by simp
    with h len show ?thesis unfolding getitem_def sh bf by (simp add: norm_index_def)
  qed
qed

theorem squeeze_sst_shape_witness:
  "shape (squeeze \<lparr>shape = [1, 2400, 2400], buf = replicate 5760000 (- 32768 :: 16 word)\<rparr>)
     = [2400, 2400] \<and>
   getitem (squeeze \<lparr>shape = [1, 2400, 2400], buf = replicate 5760000 (- 32768 :: 16 word)\<rparr>) [5, 7]
     = getitem \<lparr>shape = [1, 2400, 2400], buf = replicate 5760000 (- 32768 :: 16 word)\<rparr> [0, 5, 7] \<and>
   getitem (squeeze \<lparr>shape = [1, 2400, 2400], buf = replicate 5760000 (- 32768 :: 16 word)\<rparr>) [5, 7]
     = Some (- 32768)"
proof -
  define a :: "16 word ndarray"
    where "a = \<lparr>shape = [1, 2400, 2400], buf = replicate 5760000 (- 32768)\<rparr>"
  have s: "shape a = [1, 2400, 2400]" by (simp add: a_def)
  have w: "wf_array a" by (simp add: a_def wf_array_def)
  have r: "(0::int) \<le> 5 \<and> (5::int) < 2400 \<and> (0::int) \<le> 7 \<and> (7::int) < 2400" by simp
  from squeeze_sst_shape [OF s w] r
  have "shape (squeeze a) = [2400, 2400]"
    and "getitem (squeeze a) [5, 7] = getitem a [0, 5, 7]"
    and "getitem (squeeze a) [5, 7] = Some (buf a ! (nat 5 * 2400 + nat 7))"
    by blast+
  moreover have "buf a ! (nat 5 * 2400 + nat 7) = - 32768" by (simp add: a_def)
  ultimately show ?thesis unfolding a_def by simp
qed

section \<open>Properties of the walkthrough\<close>

subsection \<open>Order of the walkthrough\<close>

text \<open>
  C4: the steps of the walkthrough happen in a fixed order.  Whatever the libraries raise,
  the step numbers of the actions a run of either notebook performs are in ascending
  order: every login comes before the dataset is opened, the dataset is opened before any
  slice is taken, every slice before the scaling, the scaling before every plotting call.
  A run of the data notebook in which nothing raises performs all five steps.
\<close>

theorem walkthrough_order:
  "sorted (stages (fst (run_all raises pydap_notebook))) \<and>
   sorted (stages (fst (run_all raises (login_notebook user)))) \<and>
   remdups (stages (fst (run_all (\<lambda>trace a. None) pydap_notebook))) = [0, 1, 2, 3, 4]"
proof (intro conjI)
  from exec_block_log [OF pydap_handler_free, of "[]" raises]
  obtain rest where "actions_of (concat pydap_notebook) = fst (run_all raises pydap_notebook) @ rest"
    unfolding run_all_def by auto
  then have "stages (actions_of (concat pydap_notebook))
      = stages (fst (run_all raises pydap_notebook)) @ stages rest"
    by (simp add: stages_append)
  with pydap_stages_sorted show "sorted (stages (fst (run_all raises pydap_notebook)))"
    by (simp add: sorted_append)
next
  from exec_block_log [OF login_handler_free, of "[]" user raises]
  obtain rest where
    "actions_of (concat (login_notebook user)) = fst (run_all raises (login_notebook user)) @ rest"
    unfolding run_all_def by auto
  then have "stages (actions_of (concat (login_notebook user)))
      = stages (fst (run_all raises (login_notebook user))) @ stages rest"
    by (simp add: stages_append)
  with login_stages_sorted [of user]
  show "sorted (stages (fst (run_all raises (login_notebook user))))"
    by (simp add: sorted_append)
next
  have "run_all (\<lambda>trace a. None) pydap_notebook = ([] @ actions_of (concat pydap_notebook), None)"
    unfolding run_all_def using pydap_handler_free by (rule exec_block_ok) simp
  then show "remdups (stages (fst (run_all (\<lambda>trace a. None) pydap_notebook))) = [0, 1, 2, 3, 4]"
    by (simp add: pydap_stages)
qed

subsection \<open>Errors\<close>



subsection \<open>The configuration step\<close>



end
